theory Spec2Isabelle
  imports
    Complex_Main
    "HOL-Library.Multiset"
    "HOL-Library.Char_ord"
    "HOL-Library.List_Lexorder"
begin

section \<open>The TF-IDF retriever of \<^verbatim>\<open>rag.ipynb\<close>\<close>

text \<open>
  The notebook fits a \<^verbatim>\<open>TfidfVectorizer\<close> on a corpus and ranks the corpus against a query:
  \<^verbatim>\<open>
  vectorizer = TfidfVectorizer()
  vector_kb = vectorizer.fit_transform(corpus)

  def retrieve_documents(query, corpus, vectorizer, kb, top_n=3):
      query_vector = vectorizer.transform([query])
      cosine_similarities = cosine_similarity(query_vector, kb).flatten()
      related_docs_indices = cosine_similarities.argsort()[-top_n:][::-1]
      related_docs = [corpus[i] for i in related_docs_indices]
      return related_docs
  \<close>
  Weights and similarities are real numbers here (the library computes them in binary
  floating point), a sparse matrix is the list of its dense rows, and strings are ASCII.
  What depends on two similarities being exactly equal, or on the order the library's sort
  leaves equal values in, is therefore stated for every vector of similarities and every
  order that argsort may return, not for the values and the order computed here.
\<close>

datatype error = InvalidCorpus | ValueError | IndexError

type_synonym vector = "real list"
type_synonym matrix = "real list list"

subsection \<open>The vectorizer\<close>

text \<open>
  Modelled from the spec: the vectorization library behind \<^verbatim>\<open>TfidfVectorizer\<close> is not among
  the sources. Tokenization is "lowercase, split on non-alphanumeric boundaries", with the
  library's default boundary rule: a token is a maximal run of at least two word characters
  (letters, digits, underscore).
\<close>

definition is_word_char :: "char \<Rightarrow> bool" where
  "is_word_char c =
     (let n = (of_char c :: nat)
      in (48 \<le> n \<and> n \<le> 57) \<or> (65 \<le> n \<and> n \<le> 90) \<or> n = 95 \<or> (97 \<le> n \<and> n \<le> 122))"

definition lower_char :: "char \<Rightarrow> char" where
  "lower_char c =
     (let n = (of_char c :: nat) in if 65 \<le> n \<and> n \<le> 90 then char_of (n + 32) else c)"

fun word_runs :: "string \<Rightarrow> string \<Rightarrow> string list" where
  "word_runs cur [] = (if cur = [] then [] else [rev cur])"
| "word_runs cur (c # cs) =
     (if is_word_char c then word_runs (c # cur) cs
      else if cur = [] then word_runs [] cs
      else rev cur # word_runs [] cs)"

definition tokenize :: "string \<Rightarrow> string list" where
  "tokenize s = filter (\<lambda>w. 2 \<le> length w) (word_runs [] (map lower_char s))"

text \<open>
  Modelled from the spec: the fitted state of the absent vectorizer, "vocabulary and
  per-document weight vectors". The vocabulary is the sorted list of the distinct terms of
  the corpus; column \<open>j\<close> of every weight vector belongs to the \<open>j\<close>-th term.
\<close>

record vectorizer =
  vocabulary :: "string list"
  idf :: "real list"

definition build_vocabulary :: "string list \<Rightarrow> string list" where
  "build_vocabulary docs = sort (remdups (concat (map tokenize docs)))"

definition doc_freq :: "string list \<Rightarrow> string \<Rightarrow> nat" where
  "doc_freq docs t = length (filter (\<lambda>d. t \<in> set (tokenize d)) docs)"

text \<open>
  Modelled from the spec: the smoothed inverse document frequency
  \<open>log((1 + N) / (1 + df(t))) + 1\<close> of the absent library, and the weight of a term, its
  frequency in the document times that factor.
\<close>

definition idf_value :: "nat \<Rightarrow> nat \<Rightarrow> real" where
  "idf_value N df = ln ((1 + real N) / (1 + real df)) + 1"

definition tfidf_weight :: "nat \<Rightarrow> nat \<Rightarrow> nat \<Rightarrow> real" where
  "tfidf_weight tf N df = real tf * idf_value N df"

definition fit :: "string list \<Rightarrow> vectorizer" where
  "fit docs =
     (let V = build_vocabulary docs
      in \<lparr>vocabulary = V, idf = map (\<lambda>t. idf_value (length docs) (doc_freq docs t)) V\<rparr>)"

definition l2_norm :: "vector \<Rightarrow> real" where
  "l2_norm v = sqrt (sum_list (map (\<lambda>x. x * x) v))"

text \<open>Rows of norm zero are left as they are: the library divides them by one.\<close>

definition l2_normalize :: "vector \<Rightarrow> vector" where
  "l2_normalize v = (let n = l2_norm v in if n = 0 then v else map (\<lambda>x. x / n) v)"

definition term_counts :: "string list \<Rightarrow> string \<Rightarrow> vector" where
  "term_counts V d = map (\<lambda>t. real (count_list (tokenize d) t)) V"

definition tfidf_row :: "vectorizer \<Rightarrow> string \<Rightarrow> vector" where
  "tfidf_row vec d = l2_normalize (map2 (*) (term_counts (vocabulary vec) d) (idf vec))"

definition transform :: "vectorizer \<Rightarrow> string list \<Rightarrow> matrix" where
  "transform vec docs = map (tfidf_row vec) docs"

text \<open>
  Modelled from the spec: fitting "fails with an InvalidCorpus condition if the corpus is
  empty (no terms to index)"; the absent library raises when the vocabulary it built is
  empty. Otherwise the result is the fitted vectorizer and the weight matrix of the corpus.
\<close>

definition fit_transform :: "string list \<Rightarrow> error + (vectorizer \<times> matrix)" where
  "fit_transform docs =
     (let vec = fit docs
      in if vocabulary vec = [] then Inl InvalidCorpus else Inr (vec, transform vec docs))"

subsection \<open>Cosine similarity and argsort\<close>

definition dot :: "vector \<Rightarrow> vector \<Rightarrow> real" where
  "dot u v = sum_list (map2 (*) u v)"

text \<open>
  Modelled from the spec: the similarity function of the absent library. Both arguments are
  normalised row by row and multiplied; rows of different widths are an error.
\<close>

definition cosine_similarity :: "matrix \<Rightarrow> matrix \<Rightarrow> error + matrix" where
  "cosine_similarity X Y =
     (if list_all (\<lambda>x. list_all (\<lambda>y. length x = length y) Y) X
      then Inr (map (\<lambda>x. map (\<lambda>y. dot (l2_normalize x) (l2_normalize y)) Y) X)
      else Inl ValueError)"

definition flatten :: "matrix \<Rightarrow> vector" where
  "flatten m = concat m"

text \<open>
  \<^verbatim>\<open>a.argsort()\<close>: the indices of \<open>a\<close> in ascending order of their values. The array
  library promises no order among indices of equal values. \<open>is_argsort a order\<close> says that
  \<open>order\<close> is a result the call may have: a permutation of the indices with ascending
  values. \<open>argsort\<close> is one such result, the one that leaves equal values in index order.
\<close>

definition is_argsort :: "vector \<Rightarrow> nat list \<Rightarrow> bool" where
  "is_argsort a order =
     (mset order = mset [0..<length a] \<and> sorted (map (\<lambda>i. a ! i) order))"

definition argsort :: "vector \<Rightarrow> nat list" where
  "argsort a = sort_key (\<lambda>i. a ! i) [0..<length a]"

text \<open>
  The slice \<^verbatim>\<open>xs[start:]\<close> of Python: a negative start counts from the end, and a start
  out of range is clamped.
\<close>

definition slice_from :: "int \<Rightarrow> 'a list \<Rightarrow> 'a list" where
  "slice_from start xs =
     (let n = int (length xs);
          s = (if start < 0 then max (start + n) 0 else min start n)
      in drop (nat s) xs)"

subsection \<open>Retrieval\<close>

definition related_docs_indices :: "vector \<Rightarrow> int \<Rightarrow> nat list" where
  "related_docs_indices cosine_similarities top_n =
     rev (slice_from (- top_n) (argsort cosine_similarities))"

definition select_docs :: "string list \<Rightarrow> nat list \<Rightarrow> error + string list" where
  "select_docs corpus idx =
     (if list_all (\<lambda>i. i < length corpus) idx then Inr (map (\<lambda>i. corpus ! i) idx)
      else Inl IndexError)"

text \<open>
  The last three statements of \<^verbatim>\<open>retrieve_documents\<close>, from the value \<open>order\<close> of
  \<^verbatim>\<open>cosine_similarities.argsort()\<close> on.
\<close>

definition rank_documents :: "nat list \<Rightarrow> string list \<Rightarrow> int \<Rightarrow> error + string list" where
  "rank_documents order corpus top_n = select_docs corpus (rev (slice_from (- top_n) order))"

definition similarities :: "string \<Rightarrow> vectorizer \<Rightarrow> matrix \<Rightarrow> error + vector" where
  "similarities query vec kb =
     (let query_vector = transform vec [query]
      in case cosine_similarity query_vector kb of
           Inl e \<Rightarrow> Inl e
         | Inr m \<Rightarrow> Inr (flatten m))"

definition retrieve_documents ::
  "string \<Rightarrow> string list \<Rightarrow> vectorizer \<Rightarrow> matrix \<Rightarrow> int \<Rightarrow> error + string list" where
  "retrieve_documents query corpus vec kb top_n =
     (case similarities query vec kb of
        Inl e \<Rightarrow> Inl e
      | Inr cosine_similarities \<Rightarrow>
          select_docs corpus (related_docs_indices cosine_similarities top_n))"

text \<open>The corpus of the notebook.\<close>

definition corpus :: "string list" where
  "corpus =
     [''the cat sat on the mat'',
      ''the dog chased the cat'',
      ''the cat and dog played together'',
      ''the cat is sleeping'',
      ''the dog barked loudly'']"

text \<open>
  Two documents with the same terms in a different order, and two documents with no term in
  common.
\<close>

definition tied_corpus :: "string list" where
  "tied_corpus = [''cat dog'', ''dog cat'']"

definition pair_corpus :: "string list" where
  "pair_corpus = [''cat'', ''dog'']"





section \<open>Basic facts\<close>

subsection \<open>Fitting\<close>

lemma fitted_parts:
  assumes "fit_transform docs = Inr (vec, kb)"
  shows "vec = fit docs" and "kb = transform (fit docs) docs" and "build_vocabulary docs \<noteq> []"
  using assms by (auto simp: fit_transform_def fit_def Let_def split: if_splits)

lemma length_l2_normalize: "length (l2_normalize v) = length v"
  by (simp add: l2_normalize_def Let_def)

lemma length_tfidf_row: "length (tfidf_row (fit docs) d) = length (build_vocabulary docs)"
  by (simp add: tfidf_row_def length_l2_normalize term_counts_def fit_def Let_def)

lemma cosine_similarity_fit:
  "cosine_similarity (transform (fit docs) [q]) (transform (fit docs) ds) =
     Inr [map (\<lambda>y. dot (l2_normalize (tfidf_row (fit docs) q)) (l2_normalize y))
            (transform (fit docs) ds)]"
  by (simp add: cosine_similarity_def transform_def list_all_iff length_tfidf_row)

lemma similarities_fit:
  "similarities q (fit docs) (transform (fit docs) ds) =
     Inr (map (\<lambda>d. dot (l2_normalize (tfidf_row (fit docs) q))
                     (l2_normalize (tfidf_row (fit docs) d))) ds)"
  by (simp add: similarities_def cosine_similarity_fit flatten_def Let_def)
    (simp add: transform_def comp_def)

lemma vocabulary_corpus:
  "build_vocabulary corpus =
     [''and'', ''barked'', ''cat'', ''chased'', ''dog'', ''is'', ''loudly'', ''mat'', ''on'',
      ''played'', ''sat'', ''sleeping'', ''the'', ''together'']"
  by code_simp

lemma fit_transform_corpus:
  "fit_transform corpus = Inr (fit corpus, transform (fit corpus) corpus)"
  by (simp add: fit_transform_def fit_def Let_def vocabulary_corpus)

subsection \<open>Sorting, slicing and selecting\<close>

lemma mset_argsort: "mset (argsort a) = mset [0..<length a]"
  by (simp add: argsort_def)

lemma set_argsort: "set (argsort a) = {0..<length a}"
  by (simp add: argsort_def)

lemma length_argsort: "length (argsort a) = length a"
  by (simp add: argsort_def)

lemma sorted_argsort: "sorted (map (\<lambda>i. a ! i) (argsort a))"
  by (simp add: argsort_def)

lemma set_slice_from: "set (slice_from k xs) \<subseteq> set xs"
  by (simp add: slice_from_def Let_def set_drop_subset)

lemma set_related_docs_indices: "set (related_docs_indices a n) \<subseteq> {0..<length a}"
  using set_slice_from [of "- n" "argsort a"] by (simp add: related_docs_indices_def set_argsort)

lemma related_docs_indices_all:
  "n = 0 \<or> int (length a) \<le> n \<Longrightarrow> related_docs_indices a n = rev (argsort a)"
  by (auto simp: related_docs_indices_def slice_from_def Let_def length_argsort max_def)

lemma select_docs_ok:
  "set idx \<subseteq> {0..<length docs} \<Longrightarrow> select_docs docs idx = Inr (map (\<lambda>i. docs ! i) idx)"
  by (auto simp: select_docs_def list_all_iff)

lemma map_nth_perm:
  assumes "mset idx = mset [0..<length docs]"
  shows "mset (map (\<lambda>i. docs ! i) idx) = mset docs"
proof -
  have "mset (map (\<lambda>i. docs ! i) idx) = image_mset (\<lambda>i. docs ! i) (mset idx)" by simp
  also have "\<dots> = mset (map (\<lambda>i. docs ! i) [0..<length docs])" using assms by simp
  also have "\<dots> = mset docs" by (simp add: map_nth)
  finally show ?thesis .
qed

text \<open>On a fitted corpus retrieval never fails: there is one similarity for each document.\<close>

lemma retrieve_fit:
  assumes "fit_transform docs = Inr (vec, kb)"
  shows "\<exists>s. similarities q vec kb = Inr s \<and> length s = length docs \<and>
           retrieve_documents q docs vec kb n =
             Inr (map (\<lambda>i. docs ! i) (related_docs_indices s n))"
proof -
  let ?s = "map (\<lambda>d. dot (l2_normalize (tfidf_row (fit docs) q))
                       (l2_normalize (tfidf_row (fit docs) d))) docs"
  have s: "similarities q vec kb = Inr ?s"
    using fitted_parts(1,2) [OF assms] by (simp add: similarities_fit)
  have "set (related_docs_indices ?s n) \<subseteq> {0..<length docs}"
    using set_related_docs_indices [of ?s n] by simp
  then have "retrieve_documents q docs vec kb n =
      Inr (map (\<lambda>i. docs ! i) (related_docs_indices ?s n))"
    by (simp add: retrieve_documents_def s select_docs_ok)
  with s show ?thesis by simp
qed

subsection \<open>Weights\<close>

lemma idf_value_ge_1: "df \<le> N \<Longrightarrow> 1 \<le> idf_value N df"
  by (simp add: idf_value_def)

lemma doc_freq_le: "doc_freq docs t \<le> length docs"
  by (simp add: doc_freq_def)

lemma idf_value_antimono: "df' \<le> df \<Longrightarrow> idf_value N df \<le> idf_value N df'"
  by (simp add: idf_value_def frac_le)

lemma raw_row_fit:
  "map2 (*) (term_counts (vocabulary (fit docs)) d) (idf (fit docs)) =
     map (\<lambda>t. tfidf_weight (count_list (tokenize d) t) (length docs) (doc_freq docs t))
       (build_vocabulary docs)"
  by (simp add: fit_def Let_def term_counts_def tfidf_weight_def zip_map_map map_zip_map
      zip_same_conv_map)

lemma nth_l2_normalize_zero: "j < length v \<Longrightarrow> v ! j = 0 \<Longrightarrow> l2_normalize v ! j = 0"
  by (simp add: l2_normalize_def Let_def)

lemma fitted_absent_zero:
  assumes "fit_transform docs = Inr (vec, kb)" "i < length docs" "j < length (vocabulary vec)"
    "vocabulary vec ! j \<notin> set (tokenize (docs ! i))"
  shows "kb ! i ! j = 0"
proof -
  have vec: "vec = fit docs" and kb: "kb = transform (fit docs) docs"
    using fitted_parts [OF assms(1)] by simp_all
  have V: "vocabulary vec = build_vocabulary docs" by (simp add: vec fit_def Let_def)
  have "kb ! i = l2_normalize (map (\<lambda>t. tfidf_weight (count_list (tokenize (docs ! i)) t)
      (length docs) (doc_freq docs t)) (build_vocabulary docs))"
    using assms(2) by (simp add: kb transform_def tfidf_row_def raw_row_fit)
  then show ?thesis
    using assms(3,4) by (simp add: V nth_l2_normalize_zero tfidf_weight_def)
qed

subsection \<open>Queries without vocabulary terms\<close>

lemma dot_zeros: "set u \<subseteq> {0} \<Longrightarrow> dot u v = 0"
proof (induction u arbitrary: v)
  case Nil
  then show ?case by (simp add: dot_def)
next
  case (Cons a u)
  then show ?case by (cases v) (simp_all add: dot_def)
qed

lemma sum_squares_zeros: "set u \<subseteq> {0} \<Longrightarrow> sum_list (map (\<lambda>x. x * x) u) = (0::real)"
  by (induction u) simp_all

lemma l2_normalize_zeros: "set u \<subseteq> {0} \<Longrightarrow> l2_normalize u = u"
  by (simp add: l2_normalize_def l2_norm_def sum_squares_zeros)

lemma tfidf_row_unknown:
  assumes "list_all (\<lambda>t. t \<notin> set (vocabulary vec)) (tokenize q)"
  shows "set (tfidf_row vec q) \<subseteq> {0}"
proof -
  have "count_list (tokenize q) t = 0" if "t \<in> set (vocabulary vec)" for t
    using assms that by (auto simp: count_list_0_iff list_all_iff)
  then have "set (term_counts (vocabulary vec) q) \<subseteq> {0}"
    by (auto simp: term_counts_def)
  then have "set (map2 (*) (term_counts (vocabulary vec) q) (idf vec)) \<subseteq> {0}"
    by (auto dest!: set_zip_leftD)
  then show ?thesis
    by (simp add: tfidf_row_def l2_normalize_zeros)
qed

lemma similarities_unknown:
  assumes "fit_transform docs = Inr (vec, kb)"
    and "list_all (\<lambda>t. t \<notin> set (vocabulary vec)) (tokenize q)"
  shows "similarities q vec kb = Inr (replicate (length docs) 0)"
proof -
  have vec: "vec = fit docs" and kb: "kb = transform (fit docs) docs"
    using fitted_parts [OF assms(1)] by simp_all
  have z: "set (l2_normalize (tfidf_row (fit docs) q)) \<subseteq> {0}"
    using tfidf_row_unknown [OF assms(2)] by (simp add: vec l2_normalize_zeros)
  show ?thesis
    unfolding vec kb similarities_fit by (simp add: dot_zeros [OF z] map_replicate_const)
qed

lemma length_related_docs_indices:
  "0 < n \<Longrightarrow> length (related_docs_indices a n) = min (nat n) (length a)"
  by (auto simp: related_docs_indices_def slice_from_def Let_def length_argsort max_def)

lemma fitted_nonempty: "fit_transform docs = Inr (vec, kb) \<Longrightarrow> docs \<noteq> []"
  by (auto simp: fit_transform_def fit_def build_vocabulary_def Let_def)

lemma tokenize_unknown: "tokenize ''zzqx999'' = [''zzqx999'']"
  by code_simp

lemma vocabulary_fit: "vocabulary (fit docs) = build_vocabulary docs"
  by (simp add: fit_def Let_def)

lemma unknown_query_corpus:
  "list_all (\<lambda>t. t \<notin> set (vocabulary (fit corpus))) (tokenize ''zzqx999'')"
  by (simp add: tokenize_unknown vocabulary_fit vocabulary_corpus)

lemma insort_key_cong:
  "f x = g x \<Longrightarrow> \<forall>y\<in>set ys. f y = g y \<Longrightarrow> insort_key f x ys = insort_key g x ys"
  by (induction ys) auto

lemma sort_key_cong: "\<forall>x\<in>set xs. f x = g x \<Longrightarrow> sort_key f xs = sort_key g xs"
proof (induction xs)
  case Nil
  then show ?case by simp
next
  case (Cons a xs)
  then have "sort_key f xs = sort_key g xs" by simp
  moreover have "insort_key f a (sort_key g xs) = insort_key g a (sort_key g xs)"
    using Cons.prems by (intro insort_key_cong) simp_all
  ultimately show ?case by simp
qed

lemma argsort_zeros: "argsort (replicate n 0) = [0..<n]"
proof -
  have "sort_key (\<lambda>i. replicate n (0::real) ! i) [0..<n] = sort_key (\<lambda>i. 0::real) [0..<n]"
    by (rule sort_key_cong) simp
  then show ?thesis by (simp add: argsort_def sort_key_const)
qed

subsection \<open>Two documents with the same weights\<close>

lemma retrieve_fitted_eq:
  "retrieve_documents q docs (fit docs) (transform (fit docs) docs) n =
     select_docs docs (related_docs_indices
       (map (\<lambda>d. dot (l2_normalize (tfidf_row (fit docs) q))
                    (l2_normalize (tfidf_row (fit docs) d))) docs) n)"
  by (simp add: retrieve_documents_def similarities_fit)

lemma tied_rows:
  "tfidf_row (fit tied_corpus) ''dog cat'' = tfidf_row (fit tied_corpus) ''cat dog''"
proof -
  have "build_vocabulary tied_corpus = [''cat'', ''dog'']" by code_simp
  moreover have "map (count_list (tokenize ''dog cat'')) [''cat'', ''dog''] =
      map (count_list (tokenize ''cat dog'')) [''cat'', ''dog'']" by code_simp
  ultimately have "term_counts (vocabulary (fit tied_corpus)) ''dog cat'' =
      term_counts (vocabulary (fit tied_corpus)) ''cat dog''"
    by (simp add: term_counts_def vocabulary_fit)
  then show ?thesis by (simp add: tfidf_row_def)
qed

subsection \<open>Self-similarity\<close>

lemma dot_self: "dot x x = sum_list (map (\<lambda>a. a * a) x)"
  by (induction x) (simp_all add: dot_def)

lemma l2_norm_dot: "l2_norm x = sqrt (dot x x)"
  by (simp add: l2_norm_def dot_self)

lemma dot_self_nonneg: "0 \<le> dot x x"
  unfolding dot_self by (rule sum_list_nonneg) auto

lemma dot_scale: "dot (map (\<lambda>a. a / c) x) (map (\<lambda>a. a / c) y) = dot x y / (c * c)"
proof (induction x arbitrary: y)
  case Nil
  then show ?case by (simp add: dot_def)
next
  case (Cons a x)
  show ?case
  proof (cases y)
    case Nil
    then show ?thesis by (simp add: dot_def)
  next
    case (Cons b y')
    have "dot (map (\<lambda>a. a / c) x) (map (\<lambda>a. a / c) y') = dot x y' / (c * c)"
      by (rule Cons.IH)
    then show ?thesis
      using Cons by (simp add: dot_def add_divide_distrib)
  qed
qed

lemma dot_l2_normalize_self:
  "dot (l2_normalize x) (l2_normalize x) = (if l2_norm x = 0 then 0 else 1)"
proof (cases "l2_norm x = 0")
  case True
  then have "dot x x = 0" by (simp add: l2_norm_dot)
  with True show ?thesis by (simp add: l2_normalize_def)
next
  case False
  have "l2_norm x * l2_norm x = dot x x"
    using dot_self_nonneg [of x] by (simp add: l2_norm_dot)
  moreover have "dot x x \<noteq> 0"
    using False by (simp add: l2_norm_dot)
  ultimately show ?thesis
    using False by (simp add: l2_normalize_def dot_scale)
qed

subsection \<open>Every order argsort may return\<close>

lemma sorted_le_last: "sorted xs \<Longrightarrow> x \<in> set xs \<Longrightarrow> x \<le> last xs"
  by (induction xs) auto

lemma argsort_is_argsort: "is_argsort a (argsort a)"
  by (simp add: is_argsort_def mset_argsort sorted_argsort)

lemma retrieve_documents_rank:
  "retrieve_documents q docs vec kb n =
     (case similarities q vec kb of
        Inl e \<Rightarrow> Inl e
      | Inr s \<Rightarrow> rank_documents (argsort s) docs n)"
  by (simp add: retrieve_documents_def rank_documents_def related_docs_indices_def
      split: sum.split)

lemma set_is_argsort: "is_argsort a order \<Longrightarrow> set order = {0..<length a}"
  by (metis is_argsort_def mset_eq_setD set_upt)

lemma is_argsort_descending:
  assumes "is_argsort s order"
  shows "sorted_wrt (\<lambda>a b. s ! b \<le> s ! a) (rev (slice_from (- n) order))"
proof -
  have "sorted_wrt (\<lambda>a b. s ! a \<le> s ! b) order"
    using assms by (simp add: is_argsort_def sorted_map)
  then have "sorted_wrt (\<lambda>a b. s ! a \<le> s ! b) (slice_from (- n) order)"
    unfolding slice_from_def Let_def by (rule sorted_wrt_drop)
  then show ?thesis by (simp add: sorted_wrt_rev)
qed

lemma rank_documents_ok:
  assumes "is_argsort s order" and "length s = length docs"
  shows "rank_documents order docs n = Inr (map (\<lambda>i. docs ! i) (rev (slice_from (- n) order)))"
proof -
  have "set (rev (slice_from (- n) order)) \<subseteq> {0..<length docs}"
    using set_slice_from [of "- n" order] set_is_argsort [OF assms(1)] assms(2) by simp
  then show ?thesis
    unfolding rank_documents_def by (rule select_docs_ok)
qed

lemma last_is_argsort:
  assumes "is_argsort s order" and "i < length s" and "\<forall>j<length s. j \<noteq> i \<longrightarrow> s ! j < s ! i"
  shows "order \<noteq> []" and "last order = i"
proof -
  have set: "set order = {0..<length s}" using assms(1) by (rule set_is_argsort)
  then show ne: "order \<noteq> []" using assms(2) by auto
  then have "last order \<in> set order" by (rule last_in_set)
  then have l: "last order < length s" by (simp add: set)
  have "s ! i \<in> set (map (\<lambda>k. s ! k) order)"
    using assms(2) by (simp add: set)
  moreover have "sorted (map (\<lambda>k. s ! k) order)"
    using assms(1) by (simp add: is_argsort_def)
  ultimately have "s ! i \<le> last (map (\<lambda>k. s ! k) order)"
    by (intro sorted_le_last)
  then have "s ! i \<le> s ! last order"
    using ne by (simp add: last_map)
  with assms(3) l show "last order = i" by (metis not_less)
qed

subsection \<open>A corpus of two unrelated documents\<close>

lemma l2_normalize_unit_1: "0 < c \<Longrightarrow> l2_normalize [c, 0] = [1, 0]"
  by (simp add: l2_normalize_def l2_norm_def)

lemma l2_normalize_unit_2: "0 < c \<Longrightarrow> l2_normalize [0, c] = [0, 1]"
  by (simp add: l2_normalize_def l2_norm_def)

lemma tfidf_row_fit:
  assumes "build_vocabulary docs = V" and "map (doc_freq docs) V = dfs" and "length docs = N"
    and "map (count_list (tokenize d)) V = cs"
  shows "tfidf_row (fit docs) d = l2_normalize (map2 (*) (map real cs) (map (idf_value N) dfs))"
  using assms by (auto simp: tfidf_row_def fit_def Let_def term_counts_def comp_def)

lemma pair_corpus_rows:
  "tfidf_row (fit pair_corpus) ''cat'' = [1, 0]" "tfidf_row (fit pair_corpus) ''dog'' = [0, 1]"
proof -
  have V: "build_vocabulary pair_corpus = [''cat'', ''dog'']" by code_simp
  have dfs: "map (doc_freq pair_corpus) [''cat'', ''dog''] = [1, 1]" by code_simp
  have N: "length pair_corpus = 2" by (simp add: pair_corpus_def)
  have c: "0 < idf_value 2 (Suc 0)"
    using idf_value_ge_1 [of 1 2] by simp
  have "map (count_list (tokenize ''cat'')) [''cat'', ''dog''] = [1, 0]" by code_simp
  from tfidf_row_fit [OF V dfs N this] show "tfidf_row (fit pair_corpus) ''cat'' = [1, 0]"
    by (simp add: l2_normalize_unit_1 c)
  have "map (count_list (tokenize ''dog'')) [''cat'', ''dog''] = [0, 1]" by code_simp
  from tfidf_row_fit [OF V dfs N this] show "tfidf_row (fit pair_corpus) ''dog'' = [0, 1]"
    by (simp add: l2_normalize_unit_2 c)
qed

lemma fit_transform_pair_corpus:
  "fit_transform pair_corpus = Inr (fit pair_corpus, transform (fit pair_corpus) pair_corpus)"
proof -
  have "build_vocabulary pair_corpus = [''cat'', ''dog'']" by code_simp
  then show ?thesis by (simp add: fit_transform_def vocabulary_fit Let_def)
qed

lemma similarities_pair_corpus:
  "similarities ''cat'' (fit pair_corpus) (transform (fit pair_corpus) pair_corpus) = Inr [1, 0]"
proof -
  have "l2_normalize [1, 0] = [1, 0]" "l2_normalize [0, 1] = [0, 1]"
    using l2_normalize_unit_1 [of 1] l2_normalize_unit_2 [of 1] by simp_all
  then show ?thesis
    unfolding similarities_fit
    by (subst (3) pair_corpus_def) (simp add: pair_corpus_rows dot_def)
qed

subsection \<open>Comparing cosine similarities\<close>

lemma dot_scale2: "dot (map (\<lambda>a. a / c) x) (map (\<lambda>a. a / d) y) = dot x y / (c * d)"
proof (induction x arbitrary: y)
  case Nil
  then show ?case by (simp add: dot_def)
next
  case (Cons a x)
  show ?case
  proof (cases y)
    case Nil
    then show ?thesis by (simp add: dot_def)
  next
    case (Cons b y')
    have "dot (map (\<lambda>a. a / c) x) (map (\<lambda>a. a / d) y') = dot x y' / (c * d)"
      by (rule Cons.IH)
    then show ?thesis
      using Cons by (simp add: dot_def add_divide_distrib)
  qed
qed

lemma l2_normalize_idem: "l2_normalize (l2_normalize x) = l2_normalize x"
proof (cases "l2_norm x = 0")
  case True
  then show ?thesis by (simp add: l2_normalize_def)
next
  case False
  then have "dot (l2_normalize x) (l2_normalize x) = 1"
    by (simp add: dot_l2_normalize_self)
  then have "l2_norm (l2_normalize x) = 1" by (simp add: l2_norm_dot)
  then show ?thesis by (simp add: l2_normalize_def [of "l2_normalize x"])
qed

lemma cosine_formula:
  assumes "0 < dot x x" and "0 < dot y y"
  shows "dot (l2_normalize (l2_normalize x)) (l2_normalize (l2_normalize y)) =
           dot x y / (l2_norm x * l2_norm y)"
  using assms by (simp add: l2_normalize_idem) (simp add: l2_normalize_def l2_norm_dot dot_scale2)

lemma cosine_less:
  assumes x: "0 < dot x x" and y: "0 < dot y y" and z: "0 < dot z z"
    and xy: "0 \<le> dot x y" and xz: "0 \<le> dot x z"
    and less: "dot x y * dot x y * dot z z < dot x z * dot x z * dot y y"
  shows "dot (l2_normalize (l2_normalize x)) (l2_normalize (l2_normalize y)) <
         dot (l2_normalize (l2_normalize x)) (l2_normalize (l2_normalize z))"
proof -
  define p q n m k where "p = dot x y" and "q = dot x z" and "n = l2_norm x"
    and "m = l2_norm y" and "k = l2_norm z"
  have n: "0 < n" and m: "0 < m" and k: "0 < k"
    using x y z by (simp_all add: n_def m_def k_def l2_norm_dot)
  have sm: "m * m = dot y y" and sk: "k * k = dot z z"
    using y z by (simp_all add: m_def k_def l2_norm_dot)
  have "(p * k) * (p * k) = p * p * (k * k)" by (simp add: algebra_simps)
  also have "\<dots> < q * q * (m * m)" using less by (simp only: sm sk p_def q_def)
  also have "\<dots> = (q * m) * (q * m)" by (simp add: algebra_simps)
  finally have "(p * k)\<^sup>2 < (q * m)\<^sup>2" by (simp only: power2_eq_square)
  moreover have "0 \<le> q * m" using xz m by (simp add: q_def)
  ultimately have "p * k < q * m" by (rule power2_less_imp_less)
  moreover have "p / (n * m) < q / (n * k) \<longleftrightarrow> p * k < q * m"
    using n m k by (simp add: field_simps)
  ultimately have "p / (n * m) < q / (n * k)" by simp
  then show ?thesis
    unfolding cosine_formula [OF x y] cosine_formula [OF x z] p_def q_def n_def m_def k_def .
qed

subsection \<open>The similarities of the notebook's query\<close>

text \<open>
  The polynomial inequalities behind the ranking, in the squares \<open>A\<close>, \<open>B\<close>, \<open>C\<close> of the
  inverse document frequencies of document frequency four, three and one.
\<close>

lemma rank_poly_3_0: fixes A B C :: real assumes "0 \<le> A" "1 \<le> C"
  shows "1 * 1 * (A + 3*C + 4) < 2 * 2 * (A + 2*C + 1)"
  using assms by simp

lemma rank_poly_0_2: fixes A B C :: real assumes "0 \<le> A" "1 \<le> B" "1 \<le> C"
  shows "2 * 2 * (A + B + 3*C + 1) < (B+1)*(B+1) * (A + 3*C + 4)"
proof -
  have "0 \<le> (B - 1) * (B + 3) * (A + 3*C)"
    using assms by (intro mult_nonneg_nonneg) simp_all
  moreover have "0 < 4 * (B * B) + 4 * B"
    using assms by (intro add_nonneg_pos mult_nonneg_nonneg) simp_all
  moreover have "(B+1)*(B+1) * (A + 3*C + 4) - 2 * 2 * (A + B + 3*C + 1) =
      (B - 1) * (B + 3) * (A + 3*C) + (4 * (B * B) + 4 * B)"
    by (simp add: algebra_simps)
  ultimately show ?thesis by linarith
qed

lemma rank_poly_2_4: fixes A B C :: real assumes "0 \<le> A" "1 \<le> B" "1 \<le> C"
  shows "(B+1)*(B+1) * (B + 2*C + 1) < (B+1)*(B+1) * (A + B + 3*C + 1)"
proof -
  have "0 < (B+1)*(B+1)" using assms by (intro mult_pos_pos) simp_all
  moreover have "B + 2*C + 1 < A + B + 3*C + 1" using assms by simp
  ultimately show ?thesis by (rule mult_strict_left_mono [rotated])
qed

lemma rank_poly_4_1: fixes A B C :: real assumes "0 \<le> A" "A \<le> C" "1 \<le> B" "1 \<le> C"
  shows "(B+1)*(B+1) * (A + B + C + 4) < (B + C + 2)*(B + C + 2) * (B + 2*C + 1)"
proof -
  define u where "u = B + 1"
  define w where "w = B + 2*C + 1"
  have u: "2 \<le> u" and w: "u + 2 \<le> w" using assms by (simp_all add: u_def w_def)
  have "0 \<le> (B+1)*(B+1) * (C - A)"
    using assms by (intro mult_nonneg_nonneg) simp_all
  moreover have "2 * ((2*u + 2) * (u + 2)) \<le> (C + 1) * ((2*u + C + 1) * w)"
    using assms u w by (intro mult_mono) simp_all
  moreover have "0 < 2 * ((2*u + 2) * (u + 2)) - 3 * (u * u)"
  proof -
    have "2 * ((2*u + 2) * (u + 2)) - 3 * (u * u) = u * u + 12 * u + 8"
      by (simp add: algebra_simps)
    moreover have "0 < u * u + 12 * u + 8"
      using u by (intro add_nonneg_pos add_nonneg_nonneg mult_nonneg_nonneg) simp_all
    ultimately show ?thesis by simp
  qed
  moreover have "(B + C + 2)*(B + C + 2) * (B + 2*C + 1) - (B+1)*(B+1) * (A + B + C + 4) =
      (B+1)*(B+1) * (C - A) + ((C + 1) * ((2*u + C + 1) * w) - 3 * (u * u))"
    by (simp add: u_def w_def algebra_simps)
  ultimately show ?thesis by linarith
qed

lemma notebook_rows_order:
  fixes a b c :: real
  assumes a: "1 \<le> a" and ac: "a \<le> c" and b: "1 \<le> b"
  defines "q \<equiv> [0, 0, 0, c, b, 0, 0, 0, 0, 0, 0, 0, 1, 0]"
    and "d0 \<equiv> [0, 0, a, 0, 0, 0, 0, c, c, 0, c, 0, 2, 0]"
    and "d1 \<equiv> [0, 0, a, c, b, 0, 0, 0, 0, 0, 0, 0, 2, 0]"
    and "d2 \<equiv> [c, 0, a, 0, b, 0, 0, 0, 0, c, 0, 0, 1, c]"
    and "d3 \<equiv> [0, 0, a, 0, 0, c, 0, 0, 0, 0, 0, c, 1, 0]"
    and "d4 \<equiv> [0, c, 0, 0, b, 0, c, 0, 0, 0, 0, 0, 1, 0]"
  defines "csim \<equiv> \<lambda>x y. dot (l2_normalize (l2_normalize x)) (l2_normalize (l2_normalize y))"
  shows "csim q d3 < csim q d0" and "csim q d0 < csim q d2" and "csim q d2 < csim q d4"
    and "csim q d4 < csim q d1"
proof -
  define A B C where "A = a * a" and "B = b * b" and "C = c * c"
  have c: "1 \<le> c" using a ac by simp
  have sq: "1 \<le> x * x" if "1 \<le> x" for x :: real
    using mult_mono [of 1 x 1 x] that by simp
  have A: "0 \<le> A" and AC: "A \<le> C"
    using a ac by (simp_all add: A_def C_def mult_mono)
  have B: "1 \<le> B" and C: "1 \<le> C"
    using b c by (simp_all add: B_def C_def sq)
  have qq: "dot q q = C + B + 1"
    and q0: "dot q d0 = 2" and q1: "dot q d1 = B + C + 2" and q2: "dot q d2 = B + 1"
    and q3: "dot q d3 = 1" and q4: "dot q d4 = B + 1"
    and s0: "dot d0 d0 = A + 3 * C + 4" and s1: "dot d1 d1 = A + B + C + 4"
    and s2: "dot d2 d2 = A + B + 3 * C + 1" and s3: "dot d3 d3 = A + 2 * C + 1"
    and s4: "dot d4 d4 = B + 2 * C + 1"
    by (simp_all add: dot_def q_def d0_def d1_def d2_def d3_def d4_def A_def B_def C_def)
  have pos: "0 < dot q q" "0 < dot d0 d0" "0 < dot d1 d1" "0 < dot d2 d2" "0 < dot d3 d3"
    "0 < dot d4 d4"
    using A B C by (simp_all add: qq s0 s1 s2 s3 s4)
  have nn: "0 \<le> dot q d0" "0 \<le> dot q d1" "0 \<le> dot q d2" "0 \<le> dot q d3" "0 \<le> dot q d4"
    using B C by (simp_all add: q0 q1 q2 q3 q4)
  have "dot q d3 * dot q d3 * dot d0 d0 < dot q d0 * dot q d0 * dot d3 d3"
    using rank_poly_3_0 [OF A C] by (simp add: q0 q3 s0 s3)
  with pos nn show "csim q d3 < csim q d0"
    unfolding csim_def by (intro cosine_less)
  have "dot q d0 * dot q d0 * dot d2 d2 < dot q d2 * dot q d2 * dot d0 d0"
    using rank_poly_0_2 [OF A B C] by (simp add: q0 q2 s0 s2)
  with pos nn show "csim q d0 < csim q d2"
    unfolding csim_def by (intro cosine_less)
  have "dot q d2 * dot q d2 * dot d4 d4 < dot q d4 * dot q d4 * dot d2 d2"
    using rank_poly_2_4 [OF A B C] by (simp add: q2 q4 s2 s4)
  with pos nn show "csim q d2 < csim q d4"
    unfolding csim_def by (intro cosine_less)
  have "dot q d4 * dot q d4 * dot d1 d1 < dot q d1 * dot q d1 * dot d4 d4"
    using rank_poly_4_1 [OF A AC B C] by (simp add: q1 q4 s1 s4)
  with pos nn show "csim q d4 < csim q d1"
    unfolding csim_def by (intro cosine_less)
qed

lemma top3_of_chain:
  fixes s0 s1 s2 s3 s4 :: real
  assumes "s3 < s0" "s0 < s2" "s2 < s4" "s4 < s1"
  shows "related_docs_indices [s0, s1, s2, s3, s4] 3 = [1, 4, 2]"
  using assms
  by (simp add: related_docs_indices_def argsort_def slice_from_def upt_conv_Cons)

lemma doc_freq_corpus:
  "map (doc_freq corpus)
     [''and'', ''barked'', ''cat'', ''chased'', ''dog'', ''is'', ''loudly'', ''mat'', ''on'',
      ''played'', ''sat'', ''sleeping'', ''the'', ''together''] =
   [1, 1, 4, 1, 3, 1, 1, 1, 1, 1, 1, 1, 5, 1]"
  by code_simp

lemma length_corpus: "length corpus = 5"
  by (simp add: corpus_def)

lemma idf_value_all_documents: "idf_value N N = 1"
  by (simp add: idf_value_def)

lemma notebook_rows:
  "tfidf_row (fit corpus) ''the dog chased who ?'' =
     l2_normalize [0, 0, 0, idf_value 5 1, idf_value 5 3, 0, 0, 0, 0, 0, 0, 0, 1, 0]"
  "tfidf_row (fit corpus) ''the cat sat on the mat'' =
     l2_normalize [0, 0, idf_value 5 4, 0, 0, 0, 0, idf_value 5 1, idf_value 5 1, 0,
       idf_value 5 1, 0, 2, 0]"
  "tfidf_row (fit corpus) ''the dog chased the cat'' =
     l2_normalize [0, 0, idf_value 5 4, idf_value 5 1, idf_value 5 3, 0, 0, 0, 0, 0, 0, 0, 2, 0]"
  "tfidf_row (fit corpus) ''the cat and dog played together'' =
     l2_normalize [idf_value 5 1, 0, idf_value 5 4, 0, idf_value 5 3, 0, 0, 0, 0, idf_value 5 1,
       0, 0, 1, idf_value 5 1]"
  "tfidf_row (fit corpus) ''the cat is sleeping'' =
     l2_normalize [0, 0, idf_value 5 4, 0, 0, idf_value 5 1, 0, 0, 0, 0, 0, idf_value 5 1, 1, 0]"
  "tfidf_row (fit corpus) ''the dog barked loudly'' =
     l2_normalize [0, idf_value 5 1, 0, 0, idf_value 5 3, 0, idf_value 5 1, 0, 0, 0, 0, 0, 1, 0]"
proof -
  note row = tfidf_row_fit [OF vocabulary_corpus doc_freq_corpus length_corpus]
  have "map (count_list (tokenize ''the dog chased who ?''))
     [''and'', ''barked'', ''cat'', ''chased'', ''dog'', ''is'', ''loudly'', ''mat'', ''on'',
      ''played'', ''sat'', ''sleeping'', ''the'', ''together''] =
     [0, 0, 0, 1, 1, 0, 0, 0, 0, 0, 0, 0, 1, 0]" by code_simp
  from row [OF this] show "tfidf_row (fit corpus) ''the dog chased who ?'' =
     l2_normalize [0, 0, 0, idf_value 5 1, idf_value 5 3, 0, 0, 0, 0, 0, 0, 0, 1, 0]"
    by (simp add: idf_value_all_documents)
  have "map (count_list (tokenize ''the cat sat on the mat''))
     [''and'', ''barked'', ''cat'', ''chased'', ''dog'', ''is'', ''loudly'', ''mat'', ''on'',
      ''played'', ''sat'', ''sleeping'', ''the'', ''together''] =
     [0, 0, 1, 0, 0, 0, 0, 1, 1, 0, 1, 0, 2, 0]" by code_simp
  from row [OF this] show "tfidf_row (fit corpus) ''the cat sat on the mat'' =
     l2_normalize [0, 0, idf_value 5 4, 0, 0, 0, 0, idf_value 5 1, idf_value 5 1, 0,
       idf_value 5 1, 0, 2, 0]"
    by (simp add: idf_value_all_documents)
  have "map (count_list (tokenize ''the dog chased the cat''))
     [''and'', ''barked'', ''cat'', ''chased'', ''dog'', ''is'', ''loudly'', ''mat'', ''on'',
      ''played'', ''sat'', ''sleeping'', ''the'', ''together''] =
     [0, 0, 1, 1, 1, 0, 0, 0, 0, 0, 0, 0, 2, 0]" by code_simp
  from row [OF this] show "tfidf_row (fit corpus) ''the dog chased the cat'' =
     l2_normalize [0, 0, idf_value 5 4, idf_value 5 1, idf_value 5 3, 0, 0, 0, 0, 0, 0, 0, 2, 0]"
    by (simp add: idf_value_all_documents)
  have "map (count_list (tokenize ''the cat and dog played together''))
     [''and'', ''barked'', ''cat'', ''chased'', ''dog'', ''is'', ''loudly'', ''mat'', ''on'',
      ''played'', ''sat'', ''sleeping'', ''the'', ''together''] =
     [1, 0, 1, 0, 1, 0, 0, 0, 0, 1, 0, 0, 1, 1]" by code_simp
  from row [OF this] show "tfidf_row (fit corpus) ''the cat and dog played together'' =
     l2_normalize [idf_value 5 1, 0, idf_value 5 4, 0, idf_value 5 3, 0, 0, 0, 0, idf_value 5 1,
       0, 0, 1, idf_value 5 1]"
    by (simp add: idf_value_all_documents)
  have "map (count_list (tokenize ''the cat is sleeping''))
     [''and'', ''barked'', ''cat'', ''chased'', ''dog'', ''is'', ''loudly'', ''mat'', ''on'',
      ''played'', ''sat'', ''sleeping'', ''the'', ''together''] =
     [0, 0, 1, 0, 0, 1, 0, 0, 0, 0, 0, 1, 1, 0]" by code_simp
  from row [OF this] show "tfidf_row (fit corpus) ''the cat is sleeping'' =
     l2_normalize [0, 0, idf_value 5 4, 0, 0, idf_value 5 1, 0, 0, 0, 0, 0, idf_value 5 1, 1, 0]"
    by (simp add: idf_value_all_documents)
  have "map (count_list (tokenize ''the dog barked loudly''))
     [''and'', ''barked'', ''cat'', ''chased'', ''dog'', ''is'', ''loudly'', ''mat'', ''on'',
      ''played'', ''sat'', ''sleeping'', ''the'', ''together''] =
     [0, 1, 0, 0, 1, 0, 1, 0, 0, 0, 0, 0, 1, 0]" by code_simp
  from row [OF this] show "tfidf_row (fit corpus) ''the dog barked loudly'' =
     l2_normalize [0, idf_value 5 1, 0, 0, idf_value 5 3, 0, idf_value 5 1, 0, 0, 0, 0, 0, 1, 0]"
    by (simp add: idf_value_all_documents)
qed

lemma map_corpus:
  "map f corpus = [f ''the cat sat on the mat'', f ''the dog chased the cat'',
     f ''the cat and dog played together'', f ''the cat is sleeping'', f ''the dog barked loudly'']"
  by (simp add: corpus_def)

text \<open>With \<open>top_n\<close> the size of a fitted corpus every position is selected exactly once.\<close>

lemma retrieve_all_fitted:
  assumes "fit_transform docs = Inr (vec, kb)"
  shows "\<exists>idx. retrieve_documents q docs vec kb (int (length docs)) =
             Inr (map (\<lambda>i. docs ! i) idx) \<and>
           distinct idx \<and> set idx = {0..<length docs} \<and>
           mset (map (\<lambda>i. docs ! i) idx) = mset docs"
proof -
  obtain s where s: "similarities q vec kb = Inr s" "length s = length docs"
    and r: "retrieve_documents q docs vec kb (int (length docs)) =
       Inr (map (\<lambda>i. docs ! i) (related_docs_indices s (int (length docs))))"
    using retrieve_fit [OF assms, of q "int (length docs)"] by blast
  have idx: "related_docs_indices s (int (length docs)) = rev (argsort s)"
    using s(2) by (simp add: related_docs_indices_all)
  have "mset (rev (argsort s)) = mset [0..<length docs]"
    using s(2) by (simp add: mset_argsort)
  then have "mset (map (\<lambda>i. docs ! i) (rev (argsort s))) = mset docs"
    by (rule map_nth_perm)
  moreover have "distinct (rev (argsort s))" "set (rev (argsort s)) = {0..<length docs}"
    using s(2) by (simp_all add: argsort_def)
  ultimately show ?thesis
    using r idx by auto
qed

lemma fit_transform_vocabulary:
  "build_vocabulary docs \<noteq> [] \<Longrightarrow>
     fit_transform docs = Inr (fit docs, transform (fit docs) docs)"
  by (simp add: fit_transform_def fit_def Let_def)

lemma tokenize_notebook_query:
  "tokenize ''the dog chased who ?'' = [''the'', ''dog'', ''chased'', ''who'']"
  by code_simp

section \<open>The claims\<close>

text \<open>
  C10. On a fitted corpus of \<open>N\<close> documents, \<open>top_n = 0\<close> does not give an empty result: the
  slice \<^verbatim>\<open>[-0:]\<close> is the whole ascending argsort, so all \<open>N\<close> documents are returned, in
  descending order of similarity.
\<close>

theorem retrieve_top_n_zero:
  assumes "fit_transform docs = Inr (vec, kb)"
  shows "\<exists>s r. similarities q vec kb = Inr s \<and> retrieve_documents q docs vec kb 0 = Inr r \<and>
           r = map (\<lambda>i. docs ! i) (rev (argsort s)) \<and> length r = length docs \<and>
           mset r = mset docs \<and> sorted (rev (map (\<lambda>i. s ! i) (rev (argsort s))))"
proof -
  obtain s where s: "similarities q vec kb = Inr s" "length s = length docs"
    and r: "retrieve_documents q docs vec kb 0 =
      Inr (map (\<lambda>i. docs ! i) (related_docs_indices s 0))"
    using retrieve_fit [OF assms, of q 0] by blast
  have idx: "related_docs_indices s 0 = rev (argsort s)"
    by (simp add: related_docs_indices_all)
  have "mset (rev (argsort s)) = mset [0..<length docs]"
    using s(2) by (simp add: mset_argsort)
  then have "mset (map (\<lambda>i. docs ! i) (rev (argsort s))) = mset docs"
    by (rule map_nth_perm)
  moreover have "sorted (rev (map (\<lambda>i. s ! i) (rev (argsort s))))"
    by (simp add: rev_map sorted_argsort)
  ultimately show ?thesis
    using s r idx by (simp add: length_argsort)
qed

theorem retrieve_top_n_zero_witness:
  "fit_transform corpus = Inr (fit corpus, transform (fit corpus) corpus) \<and>
   (\<exists>s r. similarities ''the dog'' (fit corpus) (transform (fit corpus) corpus) = Inr s \<and>
      retrieve_documents ''the dog'' corpus (fit corpus) (transform (fit corpus) corpus) 0 = Inr r \<and>
      length r = 5)"
proof -
  have "length corpus = 5" by (simp add: corpus_def)
  then show ?thesis
    using retrieve_top_n_zero [OF fit_transform_corpus, of "''the dog''"] fit_transform_corpus
    by auto
qed

text \<open>
  C5. On a fitted corpus of \<open>N\<close> documents a \<open>top_n\<close> greater than \<open>N\<close> behaves as \<open>top_n = N\<close>:
  the call does not fail and returns exactly \<open>N\<close> documents.
\<close>

theorem retrieve_top_n_clamped:
  assumes "fit_transform docs = Inr (vec, kb)" and "int (length docs) < n"
  shows "retrieve_documents q docs vec kb n =
           retrieve_documents q docs vec kb (int (length docs)) \<and>
         (\<exists>r. retrieve_documents q docs vec kb n = Inr r \<and> length r = length docs)"
proof -
  obtain s where s: "similarities q vec kb = Inr s" "length s = length docs"
    using retrieve_fit [OF assms(1), of q n] by blast
  have "related_docs_indices s n = rev (argsort s)"
    "related_docs_indices s (int (length docs)) = rev (argsort s)"
    using assms(2) s(2) by (simp_all add: related_docs_indices_all)
  moreover have "set (rev (argsort s)) \<subseteq> {0..<length docs}"
    using s(2) by (simp add: set_argsort)
  ultimately show ?thesis
    using s by (simp add: retrieve_documents_def select_docs_ok length_argsort)
qed

theorem retrieve_top_n_clamped_witness:
  "fit_transform corpus = Inr (fit corpus, transform (fit corpus) corpus) \<and>
   int (length corpus) < 8 \<and>
   retrieve_documents ''the dog chased who ?'' corpus (fit corpus)
     (transform (fit corpus) corpus) 8 =
   retrieve_documents ''the dog chased who ?'' corpus (fit corpus)
     (transform (fit corpus) corpus) (int (length corpus)) \<and>
   (\<exists>r. retrieve_documents ''the dog chased who ?'' corpus (fit corpus)
      (transform (fit corpus) corpus) 8 = Inr r \<and> length r = length corpus)"
proof -
  have n: "int (length corpus) < 8" by (simp add: corpus_def)
  show ?thesis
    using retrieve_top_n_clamped [OF fit_transform_corpus n, of "''the dog chased who ?''"] n
      fit_transform_corpus by blast
qed

text \<open>
  C4. For a non-empty corpus and a query with at least one term of the corpus vocabulary,
  fitting succeeds and retrieval with \<open>top_n\<close> equal to the corpus size returns a permutation
  of the corpus: every position of the corpus is selected exactly once.
\<close>

theorem retrieve_all_is_permutation:
  assumes "docs \<noteq> []"
    and "list_ex (\<lambda>t. t \<in> set (build_vocabulary docs)) (tokenize q)"
  shows "\<exists>vec kb idx. fit_transform docs = Inr (vec, kb) \<and>
           retrieve_documents q docs vec kb (int (length docs)) =
             Inr (map (\<lambda>i. docs ! i) idx) \<and>
           distinct idx \<and> set idx = {0..<length docs} \<and>
           mset (map (\<lambda>i. docs ! i) idx) = mset docs"
proof -
  have "build_vocabulary docs \<noteq> []"
    using assms(2) by (auto simp: list_ex_iff)
  then have fitted: "fit_transform docs = Inr (fit docs, transform (fit docs) docs)"
    by (rule fit_transform_vocabulary)
  from retrieve_all_fitted [OF this, of q] fitted show ?thesis by blast
qed

theorem retrieve_all_is_permutation_witness:
  "corpus \<noteq> [] \<and>
   list_ex (\<lambda>t. t \<in> set (build_vocabulary corpus)) (tokenize ''the dog chased who ?'') \<and>
   (\<exists>vec kb idx. fit_transform corpus = Inr (vec, kb) \<and>
      retrieve_documents ''the dog chased who ?'' corpus vec kb (int (length corpus)) =
        Inr (map (\<lambda>i. corpus ! i) idx) \<and>
      mset (map (\<lambda>i. corpus ! i) idx) = mset corpus)"
proof -
  have ne: "corpus \<noteq> []" by (simp add: corpus_def)
  have q: "list_ex (\<lambda>t. t \<in> set (build_vocabulary corpus)) (tokenize ''the dog chased who ?'')"
    by (simp add: tokenize_notebook_query vocabulary_corpus)
  show ?thesis
    using retrieve_all_is_permutation [OF ne q] ne q by blast
qed

text \<open>
  C6. Fitting an empty sequence of documents fails with \<open>InvalidCorpus\<close>: the result is the
  error alone, with no vectorizer and no weight matrix.
\<close>

theorem fit_empty_corpus_fails: "fit_transform [] = Inl InvalidCorpus"
  by (simp add: fit_transform_def fit_def build_vocabulary_def)


text \<open>
  C1 as stated fails: a query none of whose terms is in the vocabulary has similarity zero
  with every document, and the notebook corpus queried with \<open>zzqx999\<close> returns three
  documents, not an empty sequence.
\<close>

theorem retrieve_unknown_query_counterexample:
  "retrieve_documents ''zzqx999'' corpus (fit corpus) (transform (fit corpus) corpus) 3 =
     Inr [''the dog barked loudly'', ''the cat is sleeping'', ''the cat and dog played together'']"
proof -
  have s: "similarities ''zzqx999'' (fit corpus) (transform (fit corpus) corpus) =
      Inr (replicate (length corpus) 0)"
    using fit_transform_corpus unknown_query_corpus by (rule similarities_unknown)
  have len: "length corpus = 5" by (simp add: corpus_def)
  have "related_docs_indices (replicate 5 0) 3 = [4, 3, 2]"
    by (simp add: related_docs_indices_def argsort_zeros slice_from_def upt_rec)
  then have idx: "related_docs_indices (replicate (length corpus) 0) 3 = [4, 3, 2]"
    by (simp only: len)
  have sel: "select_docs corpus [4, 3, 2] =
      Inr [''the dog barked loudly'', ''the cat is sleeping'', ''the cat and dog played together'']"
    by (simp add: select_docs_def corpus_def)
  show ?thesis
    by (simp only: retrieve_documents_def s sum.case idx sel)
qed

text \<open>
  C1, amended. On a fitted corpus a query without vocabulary terms does not make retrieval
  fail and divides by nothing: every similarity is zero, and for a positive \<open>top_n\<close> the
  call returns \<open>min(top_n, N)\<close> documents, a non-empty sequence.
\<close>

theorem retrieve_unknown_query:
  assumes "fit_transform docs = Inr (vec, kb)"
    and "list_all (\<lambda>t. t \<notin> set (vocabulary vec)) (tokenize q)"
    and "0 < n"
  shows "similarities q vec kb = Inr (replicate (length docs) 0) \<and>
         (\<exists>r. retrieve_documents q docs vec kb n = Inr r \<and>
              length r = min (nat n) (length docs) \<and> r \<noteq> [])"
proof -
  have s: "similarities q vec kb = Inr (replicate (length docs) 0)"
    using assms(1,2) by (rule similarities_unknown)
  obtain s' where "similarities q vec kb = Inr s'"
    and r: "retrieve_documents q docs vec kb n =
      Inr (map (\<lambda>i. docs ! i) (related_docs_indices s' n))"
    using retrieve_fit [OF assms(1), of q n] by blast
  with s have s': "s' = replicate (length docs) 0" by simp
  have len: "length (related_docs_indices s' n) = min (nat n) (length docs)"
    using assms(3) by (simp add: length_related_docs_indices s')
  moreover have "0 < min (nat n) (length docs)"
    using assms(3) fitted_nonempty [OF assms(1)] by simp
  ultimately have "map (\<lambda>i. docs ! i) (related_docs_indices s' n) \<noteq> []"
    by (metis length_greater_0_conv map_is_Nil_conv)
  with s r len show ?thesis by simp
qed

theorem retrieve_unknown_query_witness:
  "fit_transform corpus = Inr (fit corpus, transform (fit corpus) corpus) \<and>
   list_all (\<lambda>t. t \<notin> set (vocabulary (fit corpus))) (tokenize ''zzqx999'') \<and>
   (0::int) < 3 \<and>
   similarities ''zzqx999'' (fit corpus) (transform (fit corpus) corpus) =
     Inr (replicate (length corpus) 0) \<and>
   (\<exists>r. retrieve_documents ''zzqx999'' corpus (fit corpus) (transform (fit corpus) corpus) 3 =
        Inr r \<and> length r = min (nat 3) (length corpus) \<and> r \<noteq> [])"
proof -
  have n: "(0::int) < 3" by simp
  show ?thesis
    using retrieve_unknown_query [OF fit_transform_corpus unknown_query_corpus n]
      fit_transform_corpus unknown_query_corpus n by blast
qed

text \<open>
  C7. The weight of a term in a document is its frequency in the document times the
  smoothed inverse document frequency \<open>log((1 + N) / (1 + df)) + 1\<close>. The weight of an absent
  term is zero; the weight does not decrease when the frequency in the document grows, for
  every \<open>df \<le> N\<close> and so for the document frequency of every term of a corpus; and it does
  not decrease when the document frequency falls. In the fitted matrix, whose rows are
  these weights normalised, the entry of a vocabulary term absent from the document is zero.
\<close>

theorem tfidf_weight_invariants:
  "tfidf_weight 0 N df = 0 \<and>
   (tf \<le> tf' \<and> df \<le> N \<longrightarrow> tfidf_weight tf N df \<le> tfidf_weight tf' N df) \<and>
   (tf \<le> tf' \<longrightarrow>
      tfidf_weight tf (length docs) (doc_freq docs t) \<le>
      tfidf_weight tf' (length docs) (doc_freq docs t)) \<and>
   (df' \<le> df \<longrightarrow> tfidf_weight tf N df \<le> tfidf_weight tf N df') \<and>
   (fit_transform docs = Inr (vec, kb) \<and> i < length docs \<and> j < length (vocabulary vec) \<and>
      count_list (tokenize (docs ! i)) (vocabulary vec ! j) = 0 \<longrightarrow> kb ! i ! j = 0)"
proof -
  have mono: "tfidf_weight tf N' df'' \<le> tfidf_weight tf' N' df''"
    if "tf \<le> tf'" "df'' \<le> N'" for N' df''
  proof -
    have "real tf \<le> real tf'" "0 \<le> idf_value N' df''"
      using that idf_value_ge_1 [of df'' N'] by simp_all
    then show ?thesis
      unfolding tfidf_weight_def by (rule mult_right_mono)
  qed
  have anti: "tfidf_weight tf N df \<le> tfidf_weight tf N df'" if "df' \<le> df"
  proof -
    have "idf_value N df \<le> idf_value N df'" using that by (rule idf_value_antimono)
    then show ?thesis
      unfolding tfidf_weight_def by (simp add: mult_left_mono)
  qed
  have zero: "kb ! i ! j = 0"
    if "fit_transform docs = Inr (vec, kb) \<and> i < length docs \<and> j < length (vocabulary vec) \<and>
      count_list (tokenize (docs ! i)) (vocabulary vec ! j) = 0"
    using that fitted_absent_zero [of docs vec kb i j] by (simp add: count_list_0_iff)
  have "tfidf_weight 0 N df = 0" by (simp add: tfidf_weight_def)
  with mono [where N' = N and df'' = df] mono [OF _ doc_freq_le, of docs t] anti zero
  show ?thesis
    by blast
qed

theorem tfidf_weight_invariants_witness:
  "tfidf_weight 0 5 3 = 0 \<and> (1::nat) \<le> 2 \<and> (3::nat) \<le> 5 \<and>
   tfidf_weight 1 5 3 \<le> tfidf_weight 2 5 3 \<and>
   tfidf_weight 1 (length corpus) (doc_freq corpus ''dog'') \<le>
     tfidf_weight 2 (length corpus) (doc_freq corpus ''dog'') \<and>
   (1::nat) \<le> 3 \<and> tfidf_weight 1 5 3 \<le> tfidf_weight 1 5 1 \<and>
   fit_transform corpus = Inr (fit corpus, transform (fit corpus) corpus) \<and>
   0 < length corpus \<and> 4 < length (vocabulary (fit corpus)) \<and>
   count_list (tokenize (corpus ! 0)) (vocabulary (fit corpus) ! 4) = 0 \<and>
   transform (fit corpus) corpus ! 0 ! 4 = 0"
proof -
  have a: "0 < length corpus" by (simp add: corpus_def)
  have b: "4 < length (vocabulary (fit corpus))"
    by (simp add: vocabulary_fit vocabulary_corpus)
  have "vocabulary (fit corpus) ! 4 = ''dog''"
    by (simp add: vocabulary_fit vocabulary_corpus)
  moreover have "corpus ! 0 = ''the cat sat on the mat''" by (simp add: corpus_def)
  moreover have "count_list (tokenize ''the cat sat on the mat'') ''dog'' = 0" by code_simp
  ultimately have c: "count_list (tokenize (corpus ! 0)) (vocabulary (fit corpus) ! 4) = 0"
    by simp
  show ?thesis
    using tfidf_weight_invariants [where N = 5 and df = 3 and tf = 1 and tf' = 2 and df' = 1
        and docs = corpus and t = "''dog''" and vec = "fit corpus"
        and kb = "transform (fit corpus) corpus" and i = 0 and j = 4]
      a b c fit_transform_corpus
    by simp
qed

text \<open>
  C2 as stated fails: two documents with the same weight vector are exactly as similar to
  any query, and the one with the higher index is ranked first.
\<close>

theorem retrieve_ties_counterexample:
  "tfidf_row (fit tied_corpus) (tied_corpus ! 1) = tfidf_row (fit tied_corpus) (tied_corpus ! 0) \<and>
   retrieve_documents ''cat dog'' tied_corpus (fit tied_corpus)
     (transform (fit tied_corpus) tied_corpus) 3 = Inr [''dog cat'', ''cat dog'']"
proof -
  have rows: "tfidf_row (fit tied_corpus) (tied_corpus ! 1) =
      tfidf_row (fit tied_corpus) (tied_corpus ! 0)"
    using tied_rows by (simp add: tied_corpus_def)
  have idx: "related_docs_indices [x, x] 3 = [1, 0]" for x :: real
    by (simp add: related_docs_indices_def argsort_def slice_from_def upt_conv_Cons)
  have "retrieve_documents ''cat dog'' tied_corpus (fit tied_corpus)
     (transform (fit tied_corpus) tied_corpus) 3 = select_docs tied_corpus [1, 0]"
    unfolding retrieve_fitted_eq
    by (subst (2 3) tied_corpus_def) (simp add: tied_rows idx)
  also have "\<dots> = Inr [''dog cat'', ''cat dog'']"
    by (simp add: select_docs_def tied_corpus_def)
  finally show ?thesis using rows by simp
qed

text \<open>
  C2, amended. The code breaks no tie. For every vector of similarities with one value for
  each document and every order argsort may return for it, the result is the documents at
  the last \<open>top_n\<close> indices of that order, reversed: they are ranked by non-increasing
  similarity, and documents of exactly equal similarity come in the reverse of the order
  argsort left them in, neither index being preferred.
\<close>

theorem ranking_descending_any_tie_order:
  assumes "is_argsort s order" and "length s = length docs"
  shows "rank_documents order docs n = Inr (map (\<lambda>i. docs ! i) (rev (slice_from (- n) order))) \<and>
         sorted_wrt (\<lambda>a b. s ! b \<le> s ! a) (rev (slice_from (- n) order))"
  using rank_documents_ok [OF assms] is_argsort_descending [OF assms(1)] by simp

theorem ranking_descending_any_tie_order_witness:
  "is_argsort [1 / 2, 1 / 2] [1, 0] \<and> length [1 / 2, 1 / 2 :: real] = length tied_corpus \<and>
   rank_documents [1, 0] tied_corpus 3 = Inr [''cat dog'', ''dog cat'']"
proof -
  have a: "is_argsort [1 / 2, 1 / 2] [1, 0]"
    by (simp add: is_argsort_def upt_conv_Cons)
  have l: "length [1 / 2, 1 / 2 :: real] = length tied_corpus"
    by (simp add: tied_corpus_def)
  have "slice_from (- 3) [1, 0 :: nat] = [1, 0]"
    by (simp add: slice_from_def)
  then show ?thesis
    using ranking_descending_any_tie_order [OF a l, of 3] a l by (simp add: tied_corpus_def)
qed

text \<open>
  C8 as stated fails: queried with its first document, the corpus of two documents with the
  same weight vector, hence the same similarity, returns the second document as top-1.
\<close>

theorem retrieve_document_as_query_counterexample:
  "tied_corpus ! 0 = ''cat dog'' \<and>
   retrieve_documents ''cat dog'' tied_corpus (fit tied_corpus)
     (transform (fit tied_corpus) tied_corpus) 1 = Inr [''dog cat'']"
proof -
  have idx: "related_docs_indices [x, x] 1 = [1]" for x :: real
    by (simp add: related_docs_indices_def argsort_def slice_from_def upt_conv_Cons)
  have "retrieve_documents ''cat dog'' tied_corpus (fit tied_corpus)
     (transform (fit tied_corpus) tied_corpus) 1 = select_docs tied_corpus [1]"
    unfolding retrieve_fitted_eq
    by (subst (2 3) tied_corpus_def) (simp add: tied_rows idx)
  also have "\<dots> = Inr [''dog cat'']"
    by (simp add: select_docs_def tied_corpus_def)
  finally show ?thesis by (simp add: tied_corpus_def)
qed

text \<open>
  C8, amended. For every vector of similarities with one value for each document, every
  order argsort may return for it and every positive \<open>top_n\<close>, a document whose similarity is
  strictly greater than that of every other document is the first element of the result.
  A query identical to a document does not make it so: a document with the same or a
  parallel weight vector is as similar, or more after rounding.
\<close>

theorem strictly_most_similar_is_first:
  assumes "is_argsort s order" and "length s = length docs" and "i < length docs" and "0 < n"
    and "\<forall>j<length docs. j \<noteq> i \<longrightarrow> s ! j < s ! i"
  shows "\<exists>r. rank_documents order docs n = Inr r \<and> r \<noteq> [] \<and> hd r = docs ! i"
proof -
  have last: "order \<noteq> []" "last order = i"
    using last_is_argsort [OF assms(1), of i] assms(2,3,5) by simp_all
  have sl: "slice_from (- n) order = drop (length order - nat n) order"
    using assms(4)
    by (auto simp: slice_from_def Let_def max_def intro!: arg_cong2 [where f = drop])
  have lt: "length order - nat n < length order"
    using assms(4) last(1) by simp
  then have ne: "rev (slice_from (- n) order) \<noteq> []"
    by (simp add: sl)
  have "hd (rev (slice_from (- n) order)) = i"
    using lt last(2) by (simp add: sl hd_rev last_drop)
  then have "hd (map (\<lambda>i. docs ! i) (rev (slice_from (- n) order))) = docs ! i"
    using ne by (simp add: hd_map)
  with ne rank_documents_ok [OF assms(1,2), of n] show ?thesis by simp
qed

theorem strictly_most_similar_is_first_witness:
  "is_argsort [1, 0] (argsort [1, 0]) \<and> length [1, 0 :: real] = length pair_corpus \<and>
   0 < length pair_corpus \<and> (0::int) < 1 \<and> [1, 0 :: real] ! 1 < [1, 0] ! 0 \<and>
   similarities (pair_corpus ! 0) (fit pair_corpus) (transform (fit pair_corpus) pair_corpus) =
     Inr [1, 0] \<and>
   (\<exists>r. retrieve_documents (pair_corpus ! 0) pair_corpus (fit pair_corpus)
        (transform (fit pair_corpus) pair_corpus) 1 = Inr r \<and> r \<noteq> [] \<and> hd r = pair_corpus ! 0)"
proof -
  have i: "0 < length pair_corpus" and l: "length [1, 0 :: real] = length pair_corpus"
    and q: "pair_corpus ! 0 = ''cat''"
    by (simp_all add: pair_corpus_def)
  have n: "(0::int) < 1" by simp
  have s: "similarities (pair_corpus ! 0) (fit pair_corpus)
      (transform (fit pair_corpus) pair_corpus) = Inr [1, 0]"
    by (simp only: q similarities_pair_corpus)
  have t: "\<forall>j<length pair_corpus. j \<noteq> 0 \<longrightarrow> [1, 0 :: real] ! j < [1, 0] ! 0"
    by (simp add: pair_corpus_def less_Suc_eq numeral_2_eq_2)
  have "\<exists>r. rank_documents (argsort [1, 0]) pair_corpus 1 = Inr r \<and> r \<noteq> [] \<and>
      hd r = pair_corpus ! 0"
    using strictly_most_similar_is_first [OF argsort_is_argsort l i n t] .
  then show ?thesis
    using argsort_is_argsort [of "[1, 0]"] l i n s by (simp add: retrieve_documents_rank)
qed

text \<open>
  C3. Fitting the notebook's corpus succeeds, and retrieving with the query
  \<open>the dog chased who ?\<close> and \<open>top_n = 3\<close> returns, in this order, \<open>the dog chased the cat\<close>,
  \<open>the dog barked loudly\<close> and \<open>the cat and dog played together\<close>.
\<close>

theorem notebook_scenario:
  "fit_transform corpus = Inr (fit corpus, transform (fit corpus) corpus) \<and>
   retrieve_documents ''the dog chased who ?'' corpus (fit corpus)
     (transform (fit corpus) corpus) 3 =
   Inr [''the dog chased the cat'', ''the dog barked loudly'', ''the cat and dog played together'']"
proof -
  have a: "1 \<le> idf_value 5 4" and b: "1 \<le> idf_value 5 3"
    by (rule idf_value_ge_1, simp)+
  have ac: "idf_value 5 4 \<le> idf_value 5 1"
    by (rule idf_value_antimono) simp
  note order = notebook_rows_order [OF a ac b]
  have "related_docs_indices
      (map (\<lambda>d. dot (l2_normalize (tfidf_row (fit corpus) ''the dog chased who ?''))
                   (l2_normalize (tfidf_row (fit corpus) d))) corpus) 3 = [1, 4, 2]"
    unfolding map_corpus notebook_rows by (rule top3_of_chain) (rule order)+
  then have "retrieve_documents ''the dog chased who ?'' corpus (fit corpus)
     (transform (fit corpus) corpus) 3 = select_docs corpus [1, 4, 2]"
    by (simp only: retrieve_fitted_eq)
  also have "\<dots> = Inr [''the dog chased the cat'', ''the dog barked loudly'',
      ''the cat and dog played together'']"
    by (simp add: select_docs_def corpus_def)
  finally show ?thesis using fit_transform_corpus by simp
qed

end
